theory Spec2Isabelle
  imports
    Complex_Main
    "HOL-Library.Sublist"
    "HOL-Library.Char_ord"
    "HOL-Library.List_Lexorder"
    "HOL-Library.Product_Lexorder"
begin

section \<open>Strings, errors and the string methods the helpers call\<close>

text \<open>
  The module \<^verbatim>\<open>pint/delegates/formatter/_helpers.py\<close> works on Python strings.
  A string is modelled as a \<^typ>\<open>string\<close>, one \<^typ>\<open>char\<close> per code point, so
  the model covers the code points 0 to 255. Strings are ordered as Python orders
  them: lexicographically by code point, a proper prefix first. An exception is a value
  of type \<open>error\<close>; a function that may raise returns \<open>error + 'a\<close>.

  \<open>Unmodelled\<close> is not an exception of Python: it marks a format string that uses a
  part of the replacement-field syntax (conversion, format specification, attribute
  or item access) that this development does not describe.
\<close>

datatype error =
    ValueError string
  | IndexError string
  | KeyError string
  | Unmodelled

definition is_digit :: "char \<Rightarrow> bool" where
  "is_digit c = (c \<in> set ''0123456789'')"

definition digit_char :: "nat \<Rightarrow> char" where
  "digit_char n = char_of (48 + n)"

fun nat_digits :: "nat \<Rightarrow> string" where
  "nat_digits n =
     (if n < 10 then [digit_char n] else nat_digits (n div 10) @ [digit_char (n mod 10)])"

declare nat_digits.simps [simp del]

definition digits_value :: "string \<Rightarrow> int" where
  "digits_value ds = foldl (\<lambda>n c. 10 * n + (of_char c - 48)) 0 ds"

text \<open>
  \<^verbatim>\<open>str.isalpha\<close> on one character: the letters among the first 256 code points
  (general categories Lu, Ll and Lo).
\<close>

definition isalpha :: "char \<Rightarrow> bool" where
  "isalpha c =
     (let n = (of_char c :: int) in
        (65 \<le> n \<and> n \<le> 90) \<or> (97 \<le> n \<and> n \<le> 122) \<or> n = 170 \<or> n = 181 \<or> n = 186 \<or>
        (192 \<le> n \<and> n \<le> 214) \<or> (216 \<le> n \<and> n \<le> 246) \<or> (248 \<le> n \<and> n \<le> 255))"

text \<open>\<^verbatim>\<open>s.startswith(p)\<close>.\<close>

definition startswith :: "string \<Rightarrow> string \<Rightarrow> bool" where
  "startswith s p = (take (length p) s = p)"

text \<open>\<^verbatim>\<open>sep.join(xs)\<close>.\<close>

fun str_join :: "string \<Rightarrow> string list \<Rightarrow> string" where
  "str_join sep [] = []"
| "str_join sep [x] = x"
| "str_join sep (x # y # ys) = x @ sep @ str_join sep (y # ys)"

text \<open>
  \<^verbatim>\<open>s.replace(old, new)\<close>: the occurrences of \<open>old\<close> are found from the left and do
  not overlap; the text after a replaced occurrence is scanned, the replacement is
  not. With an empty \<open>old\<close>, \<open>new\<close> is put before every character and at the end.
\<close>

fun replace_scan :: "char \<Rightarrow> string \<Rightarrow> string \<Rightarrow> string \<Rightarrow> string" where
  "replace_scan c cs new [] = []"
| "replace_scan c cs new (x # xs) =
     (if x = c \<and> take (length cs) xs = cs
      then new @ replace_scan c cs new (drop (length cs) xs)
      else x # replace_scan c cs new xs)"

definition str_replace :: "string \<Rightarrow> string \<Rightarrow> string \<Rightarrow> string" where
  "str_replace s old new =
     (case old of
        [] \<Rightarrow> new @ concat (map (\<lambda>x. x # new) s)
      | c # cs \<Rightarrow> replace_scan c cs new s)"

subsection \<open>\<^verbatim>\<open>str.format\<close> with positional string arguments\<close>

text \<open>
  \<^verbatim>\<open>fmt.format(*args)\<close> for arguments that are strings. Literal text is copied,
  \<^verbatim>\<open>{{\<close> and \<^verbatim>\<open>}}\<close> stand for one brace, \<^verbatim>\<open>{}\<close> takes the next argument and
  \<^verbatim>\<open>{3}\<close> the argument of that index. The numbering state is CPython's
  \<^verbatim>\<open>AutoNumber\<close>: automatic and manual numbering cannot be mixed. The scan is in
  literal text when the field accumulator is \<open>None\<close>, and inside a replacement field,
  with the characters of its name read so far (reversed), when it is \<open>Some acc\<close>.
\<close>

datatype an_state = ANS_INIT | ANS_AUTO | ANS_MANUAL

definition PY_SSIZE_T_MAX :: int where
  "PY_SSIZE_T_MAX = 9223372036854775807"

definition emit :: "string \<Rightarrow> error + string \<Rightarrow> error + string" where
  "emit pre r = (case r of Inl e \<Rightarrow> Inl e | Inr s \<Rightarrow> Inr (pre @ s))"

text \<open>
  The argument a field name selects: the index, and the numbering state after it.
\<close>

definition field_index :: "an_state \<times> nat \<Rightarrow> string \<Rightarrow> error + (nat \<times> (an_state \<times> nat))" where
  "field_index an name =
     (if name = [] then
        (if fst an = ANS_MANUAL
         then Inl (ValueError
           ''cannot switch from manual field specification to automatic field numbering'')
         else Inr (snd an, (ANS_AUTO, Suc (snd an))))
      else if list_all is_digit name then
        (if digits_value name > PY_SSIZE_T_MAX
         then Inl (ValueError ''Too many decimal digits in format string'')
         else if fst an = ANS_AUTO
         then Inl (ValueError
           ''cannot switch from automatic field numbering to manual field specification'')
         else Inr (nat (digits_value name), (ANS_MANUAL, snd an)))
      else Inl (KeyError name))"

fun fmt_scan :: "string list \<Rightarrow> an_state \<times> nat \<Rightarrow> string option \<Rightarrow> string \<Rightarrow> error + string" where
  "fmt_scan args an None [] = Inr []"
| "fmt_scan args an None (c # cs) =
     (if c = CHR ''{'' then
        (case cs of
           [] \<Rightarrow> Inl (ValueError ''Single '{' encountered in format string'')
         | d # ds \<Rightarrow>
             if d = CHR ''{'' then emit ''{'' (fmt_scan args an None ds)
             else fmt_scan args an (Some []) cs)
      else if c = CHR ''}'' then
        (case cs of
           [] \<Rightarrow> Inl (ValueError ''Single '}' encountered in format string'')
         | d # ds \<Rightarrow>
             if d = CHR ''}'' then emit ''}'' (fmt_scan args an None ds)
             else Inl (ValueError ''Single '}' encountered in format string''))
      else emit [c] (fmt_scan args an None cs))"
| "fmt_scan args an (Some acc) [] = Inl (ValueError ''expected '}' before end of string'')"
| "fmt_scan args an (Some acc) (c # cs) =
     (if c = CHR ''{'' then Inl (ValueError ''unexpected '{' in field name'')
      else if c = CHR ''}'' then
        (case field_index an (rev acc) of
           Inl e \<Rightarrow> Inl e
         | Inr (i, an') \<Rightarrow>
             if i < length args then emit (args ! i) (fmt_scan args an' None cs)
             else Inl (IndexError (''Replacement index '' @ nat_digits i @
                                   '' out of range for positional args tuple'')))
      else if c \<in> set '':![.'' then Inl Unmodelled
      else fmt_scan args an (Some (c # acc)) cs)"

definition str_format :: "string \<Rightarrow> string list \<Rightarrow> error + string" where
  "str_format fmt args = fmt_scan args (ANS_INIT, 0) None fmt"

text \<open>
  The default \<^verbatim>\<open>exp_call\<close> is \<^verbatim>\<open>"{:n}".format\<close>. On an \<^verbatim>\<open>int\<close>, and in the C
  locale, which has no digit grouping, it writes the number in decimal with a minus
  sign when negative. Only integer exponents are given this default here.
\<close>

definition format_n :: "int \<Rightarrow> string" where
  "format_n x = (if x < 0 then ''-'' @ nat_digits (nat (- x)) else nat_digits (nat x))"

text \<open>
  \<^verbatim>\<open>str\<close> on a \<^verbatim>\<open>fractions.Fraction\<close>, a renderer a caller may pass as
  \<^verbatim>\<open>exp_call\<close> for fractional exponents: the numerator alone when the denominator
  is 1, otherwise numerator, slash, denominator, in lowest terms.
\<close>

definition str_Fraction :: "rat \<Rightarrow> string" where
  "str_Fraction r =
     (case quotient_of r of
        (n, d) \<Rightarrow> if d = 1 then format_n n else format_n n @ ''/'' @ format_n d)"

section \<open>The expression formatter\<close>

text \<open>
  \<^verbatim>\<open>__JOIN_REG_EXP.search(fmt)\<close> for the pattern \<^verbatim>\<open>{\d*}\<close>: somewhere in \<open>fmt\<close>
  an opening brace, any number of decimal digits and a closing brace.
\<close>

fun JOIN_REG_EXP_search :: "string \<Rightarrow> bool" where
  "JOIN_REG_EXP_search [] = False"
| "JOIN_REG_EXP_search (c # cs) =
     ((c = CHR ''{'' \<and> startswith (dropWhile is_digit cs) ''}'') \<or> JOIN_REG_EXP_search cs)"

text \<open>
  The loop of \<^verbatim>\<open>_join\<close> over the rest of the iterator, \<open>first\<close> being the
  accumulator.
\<close>

fun join_fold :: "string \<Rightarrow> string \<Rightarrow> string list \<Rightarrow> error + string" where
  "join_fold fmt first [] = Inr first"
| "join_fold fmt first (val # miter) =
     (case str_format fmt [first, val] of
        Inl e \<Rightarrow> Inl e
      | Inr ret \<Rightarrow> join_fold fmt ret miter)"

text \<open>\<^verbatim>\<open>_join(fmt, iterable)\<close>, called with lists only.\<close>

definition join :: "string \<Rightarrow> string list \<Rightarrow> error + string" where
  "join fmt iterable =
     (case iterable of
        [] \<Rightarrow> Inr []
      | first # miter \<Rightarrow>
          if \<not> JOIN_REG_EXP_search fmt then Inr (str_join fmt iterable)
          else join_fold fmt first miter)"

text \<open>
  The loop of \<^verbatim>\<open>formatter\<close> over the items, with the two lists it appends to.
  The exponent is of any ordered type with 0, 1 and an absolute value: \<^typ>\<open>int\<close>
  for Python's \<^verbatim>\<open>int\<close>, \<^typ>\<open>rat\<close> for \<^verbatim>\<open>Fraction\<close>. \<open>fn\<close> is the local
  function the source calls \<^verbatim>\<open>fun\<close>.
\<close>

fun terms_loop ::
  "bool \<Rightarrow> string \<Rightarrow> ('a::linordered_idom \<Rightarrow> string) \<Rightarrow> (string \<times> 'a) list \<Rightarrow>
   string list \<Rightarrow> string list \<Rightarrow> error + (string list \<times> string list)" where
  "terms_loop as_ratio power_fmt fn [] pos_terms neg_terms = Inr (pos_terms, neg_terms)"
| "terms_loop as_ratio power_fmt fn ((key, val) # items) pos_terms neg_terms =
     (if val = 1 then
        terms_loop as_ratio power_fmt fn items (pos_terms @ [key]) neg_terms
      else if val > 0 then
        (case str_format power_fmt [key, fn val] of
           Inl e \<Rightarrow> Inl e
         | Inr t \<Rightarrow> terms_loop as_ratio power_fmt fn items (pos_terms @ [t]) neg_terms)
      else if val = - 1 \<and> as_ratio then
        terms_loop as_ratio power_fmt fn items pos_terms (neg_terms @ [key])
      else
        (case str_format power_fmt [key, fn val] of
           Inl e \<Rightarrow> Inl e
         | Inr t \<Rightarrow> terms_loop as_ratio power_fmt fn items pos_terms (neg_terms @ [t])))"

text \<open>The part of \<^verbatim>\<open>formatter\<close> after the loop, for \<^verbatim>\<open>as_ratio\<close> true.\<close>

definition show_as_ratio ::
  "bool \<Rightarrow> string \<Rightarrow> string \<Rightarrow> string \<Rightarrow> string list \<Rightarrow> string list \<Rightarrow> error + string" where
  "show_as_ratio single_denominator product_fmt division_fmt parentheses_fmt
       pos_terms neg_terms =
     (case join product_fmt pos_terms of
        Inl e \<Rightarrow> Inl e
      | Inr p \<Rightarrow>
          let pos_ret = (if p = [] then ''1'' else p) in
          if neg_terms = [] then Inr pos_ret
          else
            (case
               (if single_denominator then
                  (case join product_fmt neg_terms of
                     Inl e \<Rightarrow> Inl e
                   | Inr neg_ret \<Rightarrow>
                       if length neg_terms > 1 then str_format parentheses_fmt [neg_ret]
                       else Inr neg_ret)
                else join division_fmt neg_terms)
             of
               Inl e \<Rightarrow> Inl e
             | Inr neg_ret \<Rightarrow> join division_fmt [pos_ret, neg_ret]))"

text \<open>
  \<^verbatim>\<open>formatter\<close>, its parameters in the order of the source. Python's \<^verbatim>\<open>sorted\<close>
  on pairs compares the symbols first and the exponents second.
\<close>

definition formatter ::
  "(string \<times> 'a::linordered_idom) list \<Rightarrow> bool \<Rightarrow> bool \<Rightarrow> string \<Rightarrow> string \<Rightarrow> string \<Rightarrow>
   string \<Rightarrow> ('a \<Rightarrow> string) \<Rightarrow> bool \<Rightarrow> error + string" where
  "formatter items as_ratio single_denominator product_fmt division_fmt power_fmt
       parentheses_fmt exp_call sort_flag =
     (let items' = (if sort_flag then sort items else items) in
      if items' = [] then Inr []
      else
        let fn = (if as_ratio then (\<lambda>x. exp_call (abs x)) else exp_call) in
        case terms_loop as_ratio power_fmt fn items' [] [] of
          Inl e \<Rightarrow> Inl e
        | Inr (pos_terms, neg_terms) \<Rightarrow>
            if \<not> as_ratio then join product_fmt (pos_terms @ neg_terms)
            else show_as_ratio single_denominator product_fmt division_fmt parentheses_fmt
                   pos_terms neg_terms)"

text \<open>The call \<^verbatim>\<open>formatter(items)\<close> with every default, for integer exponents.\<close>

definition formatter_defaults :: "(string \<times> int) list \<Rightarrow> error + string" where
  "formatter_defaults items =
     formatter items True False '' * '' '' / '' ''{} ** {}'' ''({0})'' format_n True"

section \<open>The format specification\<close>

text \<open>
  The registry \<^verbatim>\<open>_FORMATTERS\<close> lives in \<^verbatim>\<open>pint/formatting.py\<close>; the helpers only
  read its keys. It is a parameter here: the list of its keys in insertion order.
  The keys are read as literal text, which is how \<^verbatim>\<open>re\<close> reads a key that has
  none of its special characters, as is the case of every key pint registers.
\<close>

definition BASIC_TYPES :: "char set" where
  "BASIC_TYPES = set ''bcdeEfFgGnosxX%uS''"

text \<open>
  The loop of \<^verbatim>\<open>_parse_spec\<close> over \<^verbatim>\<open>reversed(spec)\<close>; \<^verbatim>\<open>break\<close> and the end
  of the loop both return \<open>result\<close>.
\<close>

fun parse_loop :: "string list \<Rightarrow> string \<Rightarrow> string \<Rightarrow> error + string" where
  "parse_loop FORMATTERS result [] = Inr result"
| "parse_loop FORMATTERS result (ch # rest) =
     (if ch = CHR ''~'' \<or> ch \<in> BASIC_TYPES then parse_loop FORMATTERS result rest
      else if [ch] \<in> set (FORMATTERS @ [''~'']) then
        (if result \<noteq> [] then Inl (ValueError ''expected ':' after format specifier'')
         else parse_loop FORMATTERS [ch] rest)
      else if isalpha ch then Inl (ValueError (''Unknown conversion specified '' @ [ch]))
      else Inr result)"

definition parse_spec :: "string list \<Rightarrow> string \<Rightarrow> error + string" where
  "parse_spec FORMATTERS spec = parse_loop FORMATTERS [] (rev spec)"

text \<open>
  \<^verbatim>\<open>sorted(_FORMATTERS.keys(), key=len, reverse=True)\<close>: longest first, keys of one
  length in their given order.
\<close>

definition known_flags :: "string list \<Rightarrow> string list" where
  "known_flags FORMATTERS = sort_key (\<lambda>flag. - int (length flag)) FORMATTERS"

text \<open>
  \<^verbatim>\<open>flag_re.findall(spec)\<close> for an alternation of literal alternatives in one group.
  At each position the first alternative that matches there is taken and the scan
  goes on after it. After an empty match the same position is tried once more for a
  match that is not empty (\<open>must_advance\<close>); where nothing matches, the scan moves one
  character on.
\<close>

function findall :: "string list \<Rightarrow> bool \<Rightarrow> string \<Rightarrow> string list" where
  "findall alts must_advance s =
     (case find (\<lambda>f. startswith s f \<and> (if must_advance then f \<noteq> [] else True)) alts of
        Some f \<Rightarrow>
          if f = [] then [] # findall alts True s
          else f # findall alts False (drop (length f) s)
      | None \<Rightarrow> (case s of [] \<Rightarrow> [] | c # cs \<Rightarrow> findall alts False cs))"
  by pat_completeness auto
termination
proof (relation "measure (\<lambda>(alts, must_advance, s). 2 * length s + (if must_advance then 0 else 1))")
  show "wf (measure (\<lambda>(alts, must_advance, s). 2 * length s + (if must_advance then 0 else 1)))"
    by simp
next
  fix alts :: "string list" and must_advance :: bool and s f :: string
  assume found: "find (\<lambda>f. startswith s f \<and> (if must_advance then f \<noteq> [] else True)) alts = Some f"
    and empty: "f = []"
  from found have "startswith s f \<and> (if must_advance then f \<noteq> [] else True)"
    by (auto simp: find_Some_iff)
  with empty have "\<not> must_advance" by (auto split: if_splits)
  then show "((alts, True, s), (alts, must_advance, s))
      \<in> measure (\<lambda>(alts, must_advance, s). 2 * length s + (if must_advance then 0 else 1))"
    by simp
next
  fix alts :: "string list" and must_advance :: bool and s f :: string
  assume found: "find (\<lambda>f. startswith s f \<and> (if must_advance then f \<noteq> [] else True)) alts = Some f"
    and nonempty: "f \<noteq> []"
  from found have "take (length f) s = f"
    by (auto simp: find_Some_iff startswith_def)
  with nonempty have "s \<noteq> []" by auto
  with nonempty have "length (drop (length f) s) < length s" by simp
  then show "((alts, False, drop (length f) s), (alts, must_advance, s))
      \<in> measure (\<lambda>(alts, must_advance, s). 2 * length s + (if must_advance then 0 else 1))"
    by (simp split: if_splits)
next
  fix alts :: "string list" and must_advance :: bool and s cs :: string and c :: char
  assume "s = c # cs"
  then show "((alts, False, cs), (alts, must_advance, s))
      \<in> measure (\<lambda>(alts, must_advance, s). 2 * length s + (if must_advance then 0 else 1))"
    by simp
qed

declare findall.simps [simp del]

definition extract_custom_flags :: "string list \<Rightarrow> string \<Rightarrow> string" where
  "extract_custom_flags FORMATTERS spec =
     (if spec = [] then []
      else concat (findall (known_flags FORMATTERS @ [''~'']) False spec))"

definition remove_custom_flags :: "string list \<Rightarrow> string \<Rightarrow> string" where
  "remove_custom_flags FORMATTERS spec =
     foldl (\<lambda>spec flag. if flag \<noteq> [] then str_replace spec flag [] else spec) spec
       (known_flags FORMATTERS @ [''~''])"

text \<open>
  \<^verbatim>\<open>split_format\<close>. The flag \<^verbatim>\<open>separate_format_defaults\<close> is \<^verbatim>\<open>True\<close>,
  \<^verbatim>\<open>False\<close> or \<^verbatim>\<open>None\<close>: a \<^typ>\<open>bool option\<close>. The result carries, after the
  pair, the warnings the call passes to \<^verbatim>\<open>warnings.warn\<close>, in order. The
  parameter \<^verbatim>\<open>default\<close> is written \<open>default_spec\<close>.
\<close>

datatype warning = DeprecationWarning string

definition no_unit_formatter_msg :: string where
  "no_unit_formatter_msg =
     ''The given format spec does not contain a unit formatter.'' @
     '' Falling back to the builtin defaults, but in the future'' @
     '' the unit formatter specified in the `default_format`'' @
     '' attribute will be used instead.''"

definition no_magnitude_formatter_msg :: string where
  "no_magnitude_formatter_msg =
     ''The given format spec does not contain a magnitude formatter.'' @
     '' Falling back to the builtin defaults, but in the future'' @
     '' the magnitude formatter specified in the `default_format`'' @
     '' attribute will be used instead.''"

definition split_format ::
  "string list \<Rightarrow> string \<Rightarrow> string \<Rightarrow> bool option \<Rightarrow> (string \<times> string) \<times> warning list" where
  "split_format FORMATTERS spec default_spec separate_format_defaults =
     (let mspec = remove_custom_flags FORMATTERS spec;
          uspec = extract_custom_flags FORMATTERS spec;
          default_mspec = remove_custom_flags FORMATTERS default_spec;
          default_uspec = extract_custom_flags FORMATTERS default_spec
      in
        if separate_format_defaults = Some False \<or> separate_format_defaults = None then
          (if spec \<noteq> [] \<and> separate_format_defaults = None then
             ((mspec, uspec),
              (if uspec = [] \<and> default_uspec \<noteq> []
               then [DeprecationWarning no_unit_formatter_msg] else []) @
              (if mspec = [] \<and> default_mspec \<noteq> []
               then [DeprecationWarning no_magnitude_formatter_msg] else []))
           else if spec = [] then ((default_mspec, default_uspec), [])
           else ((mspec, uspec), []))
        else
          ((if mspec \<noteq> [] then mspec else default_mspec,
            if uspec \<noteq> [] then uspec else default_uspec), []))"

text \<open>\<^verbatim>\<open>join_mu\<close>; \<^verbatim>\<open>ustr[2:]\<close> drops the first two characters.\<close>

definition join_mu :: "string \<Rightarrow> string \<Rightarrow> string \<Rightarrow> error + string" where
  "join_mu joint_fstring mstr ustr =
     (if startswith ustr ''1 / '' then str_format joint_fstring [mstr, drop 2 ustr]
      else str_format joint_fstring [mstr, ustr])"

section \<open>Notions used to state the properties\<close>

text \<open>
  The text the loop of \<^verbatim>\<open>formatter\<close> appends for one item, whichever list it goes
  to: the bare symbol in the first and third branch, \<open>power_fmt\<close> applied to the
  symbol and the rendered exponent in the second and fourth.
\<close>

definition term_text ::
  "bool \<Rightarrow> string \<Rightarrow> ('a::linordered_idom \<Rightarrow> string) \<Rightarrow> string \<times> 'a \<Rightarrow> error + string" where
  "term_text as_ratio power_fmt fn item =
     (case item of
        (key, val) \<Rightarrow>
          if val = 1 \<or> (val = - 1 \<and> as_ratio) then Inr key
          else str_format power_fmt [key, fn val])"

text \<open>
  The four kinds of character the loop of \<^verbatim>\<open>_parse_spec\<close> tells apart, one per
  branch: skipped (the marker \<^verbatim>\<open>~\<close> or a basic type), a flag (a key of the registry
  of one character), an unknown letter, and a boundary (anything else), at which the
  loop breaks. A character the loop can pass is a scanned one: skipped or a flag.
\<close>

definition skipped :: "char \<Rightarrow> bool" where
  "skipped ch = (ch = CHR ''~'' \<or> ch \<in> BASIC_TYPES)"

definition flag_char :: "string list \<Rightarrow> char \<Rightarrow> bool" where
  "flag_char FORMATTERS ch = ([ch] \<in> set FORMATTERS \<and> \<not> skipped ch)"

definition unknown_char :: "string list \<Rightarrow> char \<Rightarrow> bool" where
  "unknown_char FORMATTERS ch = (isalpha ch \<and> [ch] \<notin> set FORMATTERS \<and> \<not> skipped ch)"

definition boundary_char :: "string list \<Rightarrow> char \<Rightarrow> bool" where
  "boundary_char FORMATTERS ch = (\<not> isalpha ch \<and> [ch] \<notin> set FORMATTERS \<and> \<not> skipped ch)"

definition scanned :: "string list \<Rightarrow> char \<Rightarrow> bool" where
  "scanned FORMATTERS ch = (skipped ch \<or> flag_char FORMATTERS ch)"

text \<open>
  Two conditions on the registry. Its keys are literal when none has a character that
  is special to \<^verbatim>\<open>re\<close>; only then is the pattern \<^verbatim>\<open>extract_custom_flags\<close> compiles an
  alternation of the keys as they are written. Its keys are covered when each key
  that is not empty has a character that is \<^verbatim>\<open>~\<close> or is itself a key: pint's own
  keys \<^verbatim>\<open>D\<close>, \<^verbatim>\<open>P\<close>, \<^verbatim>\<open>L\<close>, \<^verbatim>\<open>Lx\<close>, \<^verbatim>\<open>H\<close>, \<^verbatim>\<open>C\<close> are, as are any keys of one
  character.
\<close>

definition re_special :: "char set" where
  "re_special = set (''.^$*+?{}[]|()'' @ [CHR 0x5C])"

definition literal_keys :: "string list \<Rightarrow> bool" where
  "literal_keys FORMATTERS = list_all (\<lambda>flag. set flag \<inter> re_special = {}) FORMATTERS"

definition covered_keys :: "string list \<Rightarrow> bool" where
  "covered_keys FORMATTERS =
     list_all (\<lambda>flag. flag = [] \<or> list_ex (\<lambda>c. c = CHR ''~'' \<or> [c] \<in> set FORMATTERS) flag)
       FORMATTERS"

section \<open>Properties of the expression formatter\<close>

lemma join_plain: "\<not> JOIN_REG_EXP_search fmt \<Longrightarrow> join fmt xs = Inr (str_join fmt xs)"
  by (cases xs) (simp_all add: join_def)

lemma no_field_product: "\<not> JOIN_REG_EXP_search '' * ''"
  by (simp add: startswith_def)

lemma no_field_division: "\<not> JOIN_REG_EXP_search '' / ''"
  by (simp add: startswith_def)

lemma str_format_parentheses: "str_format ''({0})'' [n] = Inr (''('' @ n @ '')'')"
  by (simp add: str_format_def field_index_def emit_def is_digit_def digits_value_def
      PY_SSIZE_T_MAX_def)

lemma str_format_power: "str_format ''{} ** {}'' [k, e] = Inr (k @ '' ** '' @ e)"
  by (simp add: str_format_def field_index_def emit_def)

text \<open>
  C10. A term whose exponent is exactly 0 takes the last branch of the loop: it is
  appended to the negative terms as \<open>power_fmt\<close> applied to the symbol and the rendered
  0. As a ratio, with the default formats, a single such term gives
  \<^verbatim>\<open>1 / <symbol> ** <rendered 0>\<close>, and \<^verbatim>\<open>formatter([("m", 0)])\<close> is
  \<^verbatim>\<open>"1 / m ** 0"\<close>, neither the empty string nor the bare symbol.
\<close>

theorem zero_exponent_in_denominator:
  "terms_loop as_ratio power_fmt fn ((key, 0) # items) pos_terms neg_terms =
     (case str_format power_fmt [key, fn 0] of
        Inl e \<Rightarrow> Inl e
      | Inr t \<Rightarrow> terms_loop as_ratio power_fmt fn items pos_terms (neg_terms @ [t])) \<and>
   formatter [(key, 0)] True single_denominator '' * '' '' / '' ''{} ** {}'' ''({0})''
     exp_call sort_flag = Inr (''1 / '' @ key @ '' ** '' @ exp_call 0) \<and>
   formatter_defaults [(''m'', 0)] = Inr ''1 / m ** 0''"
proof (intro conjI)
  show "terms_loop as_ratio power_fmt fn ((key, 0) # items) pos_terms neg_terms =
     (case str_format power_fmt [key, fn 0] of
        Inl e \<Rightarrow> Inl e
      | Inr t \<Rightarrow> terms_loop as_ratio power_fmt fn items pos_terms (neg_terms @ [t]))"
    by simp
next
  show "formatter [(key, 0)] True single_denominator '' * '' '' / '' ''{} ** {}'' ''({0})''
     exp_call sort_flag = Inr (''1 / '' @ key @ '' ** '' @ exp_call 0)"
    by (simp add: formatter_def show_as_ratio_def Let_def join_plain no_field_product
        no_field_division str_format_power)
next
  show "formatter_defaults [(''m'', 0)] = Inr ''1 / m ** 0''"
    by code_simp
qed

theorem zero_exponent_in_denominator_witness:
  "formatter [(''kg'', 0::int)] True True '' * '' '' / '' ''{} ** {}'' ''({0})''
     format_n False = Inr (''1 / '' @ ''kg'' @ '' ** '' @ format_n 0)"
  using zero_exponent_in_denominator [of True "''{} ** {}''" format_n "''kg''" "[]" "[]" "[]"
      True format_n False]
  by (elim conjE)

text \<open>
  C9. With \<^verbatim>\<open>sort\<close> true the result is the result, without sorting, on the items
  sorted as pairs: by symbol first, by exponent among equal symbols. Sorting a
  sorted list again changes nothing. With the defaults, \<^verbatim>\<open>[("s",-1),("m",1)]\<close>
  and \<^verbatim>\<open>[("m",1),("s",-1)]\<close> both give \<^verbatim>\<open>"m / s"\<close>.
\<close>

theorem sort_true_is_presorted:
  "formatter (items :: (string \<times> 'a :: linordered_idom) list) as_ratio single_denominator
     product_fmt division_fmt power_fmt parentheses_fmt exp_call True =
   formatter (sort items) as_ratio single_denominator product_fmt division_fmt power_fmt
     parentheses_fmt exp_call False \<and>
   formatter items as_ratio single_denominator product_fmt division_fmt power_fmt
     parentheses_fmt exp_call True =
   formatter (sort items) as_ratio single_denominator product_fmt division_fmt power_fmt
     parentheses_fmt exp_call True \<and>
   sorted (sort items) \<and>
   (((k1 :: string, v1 :: 'a :: linordered_idom) < (k2, v2)) =
      (k1 < k2 \<or> (k1 = k2 \<and> v1 < v2))) \<and>
   formatter_defaults [(''s'', - 1), (''m'', 1)] = formatter_defaults [(''m'', 1), (''s'', - 1)] \<and>
   formatter_defaults [(''m'', 1), (''s'', - 1)] = Inr ''m / s''"
proof (intro conjI)
  show "formatter_defaults [(''s'', - 1), (''m'', 1)] =
        formatter_defaults [(''m'', 1), (''s'', - 1)]"
    by code_simp
next
  show "formatter_defaults [(''m'', 1), (''s'', - 1)] = Inr ''m / s''"
    by code_simp
next
  show "((k1 :: string, v1 :: 'a) < (k2, v2)) = (k1 < k2 \<or> (k1 = k2 \<and> v1 < v2))"
    by (auto simp: less_prod_def)
qed (simp_all add: formatter_def sorted_sort_id)

theorem sort_true_is_presorted_witness:
  "formatter [(''s'', - 2), (''m'', 1), (''kg'', 3 :: int)] False False '' * '' '' / ''
     ''{} ** {}'' ''({0})'' format_n True =
   formatter (sort [(''s'', - 2), (''m'', 1), (''kg'', 3)]) False False '' * '' '' / ''
     ''{} ** {}'' ''({0})'' format_n False"
  by (rule sort_true_is_presorted [of "[(''s'', - 2), (''m'', 1), (''kg'', 3 :: int)]" False False
      "'' * ''" "'' / ''" "''{} ** {}''" "''({0})''" format_n, THEN conjunct1])

lemma terms_loop_buckets:
  "terms_loop as_ratio power_fmt fn items pos_terms neg_terms = Inr (P, N) \<Longrightarrow>
   map Inr P = map Inr pos_terms @
     map (term_text as_ratio power_fmt fn) (filter (\<lambda>(key, val). 0 < val) items) \<and>
   map Inr N = map Inr neg_terms @
     map (term_text as_ratio power_fmt fn) (filter (\<lambda>(key, val). val \<le> 0) items)"
proof (induction items arbitrary: pos_terms neg_terms)
  case Nil
  then show ?case by simp
next
  case (Cons item items)
  obtain key val where item: "item = (key, val)" by (cases item)
  show ?case
  proof (cases "val = 1")
    case True
    with Cons.prems item
    have "terms_loop as_ratio power_fmt fn items (pos_terms @ [key]) neg_terms = Inr (P, N)"
      by simp
    from Cons.IH [OF this] True item show ?thesis
      by (simp add: term_text_def)
  next
    case not1: False
    show ?thesis
    proof (cases "0 < val")
      case True
      with Cons.prems item not1 obtain t where
        t: "str_format power_fmt [key, fn val] = Inr t" and
        rest: "terms_loop as_ratio power_fmt fn items (pos_terms @ [t]) neg_terms = Inr (P, N)"
        by (auto split: sum.splits)
      from Cons.IH [OF rest] True not1 item t show ?thesis
        by (auto simp: term_text_def)
    next
      case notpos: False
      show ?thesis
      proof (cases "val = - 1 \<and> as_ratio")
        case True
        with Cons.prems item not1 notpos
        have "terms_loop as_ratio power_fmt fn items pos_terms (neg_terms @ [key]) = Inr (P, N)"
          by simp
        from Cons.IH [OF this] True not1 notpos item show ?thesis
          by (simp add: term_text_def)
      next
        case False
        with Cons.prems item not1 notpos obtain t where
          t: "str_format power_fmt [key, fn val] = Inr t" and
          rest: "terms_loop as_ratio power_fmt fn items pos_terms (neg_terms @ [t]) = Inr (P, N)"
          by (auto split: sum.splits)
        from Cons.IH [OF rest] False not1 notpos item t show ?thesis
          by (auto simp: term_text_def)
      qed
    qed
  qed
qed

text \<open>
  C4, as the code has it. When the loop ends without an error, the positive terms are
  the texts of exactly the items whose exponent is greater than 0, in their order, and
  the negative terms the texts of exactly the items whose exponent is 0 or less. The
  text is the bare symbol when the exponent is 1, or is -1 with \<^verbatim>\<open>as_ratio\<close>
  true, and \<open>power_fmt\<close> applied to the symbol and the rendered exponent otherwise. So
  an exponent strictly between 0 and 1 goes to the positive terms, rendered with
  \<open>power_fmt\<close>.
\<close>

theorem bucket_assignment:
  "terms_loop as_ratio power_fmt fn items pos_terms neg_terms = Inr (P, N) \<longrightarrow>
   map Inr P = map Inr pos_terms @
     map (term_text as_ratio power_fmt fn) (filter (\<lambda>(key, val). 0 < val) items) \<and>
   map Inr N = map Inr neg_terms @
     map (term_text as_ratio power_fmt fn) (filter (\<lambda>(key, val). val \<le> 0) items)"
  using terms_loop_buckets by blast

theorem bucket_assignment_witness:
  "terms_loop True ''{} ** {}'' str_Fraction
     [(''m'', 1 / 2), (''s'', - 1), (''kg'', 1), (''K'', - 3 / 2), (''A'', 2)] [] [] =
     Inr ([''m ** 1/2'', ''kg'', ''A ** 2''], [''s'', ''K ** -3/2'']) \<and>
   map Inr [''m ** 1/2'', ''kg'', ''A ** 2''] =
     map Inr [] @ map (term_text True ''{} ** {}'' str_Fraction)
       (filter (\<lambda>(key, val). 0 < val)
          [(''m'', 1 / 2), (''s'', - 1), (''kg'', 1), (''K'', - 3 / 2), (''A'', 2)]) \<and>
   map Inr [''s'', ''K ** -3/2''] =
     map Inr [] @ map (term_text True ''{} ** {}'' str_Fraction)
       (filter (\<lambda>(key, val). val \<le> 0)
          [(''m'', 1 / 2), (''s'', - 1), (''kg'', 1), (''K'', - 3 / 2), (''A'', 2)])"
proof -
  have run: "terms_loop True ''{} ** {}'' str_Fraction
     [(''m'', 1 / 2), (''s'', - 1), (''kg'', 1), (''K'', - 3 / 2), (''A'', 2)] [] [] =
     Inr ([''m ** 1/2'', ''kg'', ''A ** 2''], [''s'', ''K ** -3/2''])"
    by code_simp
  from bucket_assignment [of True "''{} ** {}''" str_Fraction
      "[(''m'', 1 / 2), (''s'', - 1), (''kg'', 1), (''K'', - 3 / 2), (''A'', 2)]" "[]" "[]"
      "[''m ** 1/2'', ''kg'', ''A ** 2'']" "[''s'', ''K ** -3/2'']"] run
  show ?thesis by blast
qed

theorem fractional_exponent_counterexample:
  "(0 :: rat) < 1 / 2 \<and> (1 / 2 :: rat) < 1 \<and>
   terms_loop True ''{} ** {}'' str_Fraction [(''m'', 1 / 2)] [] [] =
     Inr ([''m ** 1/2''], [])"
  by code_simp

text \<open>
  C8, as the code has it. With \<^verbatim>\<open>as_ratio\<close> and \<^verbatim>\<open>single_denominator\<close> true and
  the default product, division and parentheses formats: when there are negative
  terms, they are joined with \<^verbatim>\<open>" * "\<close>, the joined text is put in parentheses
  exactly when there is more than one of them, and it follows the positive part and
  \<^verbatim>\<open>" / "\<close>. The items are sorted first unless \<^verbatim>\<open>sort\<close> is false: for
  \<^verbatim>\<open>[("m",1),("s",-1),("kg",-1)]\<close> the result is \<^verbatim>\<open>"m / (s * kg)"\<close>, in the given
  order, with \<^verbatim>\<open>sort\<close> false, and \<^verbatim>\<open>"m / (kg * s)"\<close> with \<^verbatim>\<open>sort\<close> true, its
  default.
\<close>

theorem single_denominator_parentheses:
  "(terms_loop True power_fmt (\<lambda>x. exp_call \<bar>x\<bar>)
      (if sort_flag then sort items else items) [] [] = Inr (pos_terms, neg_terms) \<and>
    neg_terms \<noteq> [] \<longrightarrow>
    formatter items True True '' * '' '' / '' power_fmt ''({0})'' exp_call sort_flag =
      Inr ((if str_join '' * '' pos_terms = [] then ''1'' else str_join '' * '' pos_terms) @
           '' / '' @
           (if length neg_terms > 1 then ''('' @ str_join '' * '' neg_terms @ '')''
            else str_join '' * '' neg_terms))) \<and>
   formatter [(''m'', 1), (''s'', - 1), (''kg'', - 1)] True True '' * '' '' / '' ''{} ** {}''
     ''({0})'' format_n False = Inr ''m / (s * kg)'' \<and>
   formatter [(''m'', 1), (''s'', - 1), (''kg'', - 1)] True True '' * '' '' / '' ''{} ** {}''
     ''({0})'' format_n True = Inr ''m / (kg * s)''"
proof (intro conjI impI)
  assume run: "terms_loop True power_fmt (\<lambda>x. exp_call \<bar>x\<bar>)
      (if sort_flag then sort items else items) [] [] = Inr (pos_terms, neg_terms) \<and>
    neg_terms \<noteq> []"
  then have ne: "(if sort_flag then sort items else items) \<noteq> []"
    by (cases "(if sort_flag then sort items else items)") auto
  show "formatter items True True '' * '' '' / '' power_fmt ''({0})'' exp_call sort_flag =
      Inr ((if str_join '' * '' pos_terms = [] then ''1'' else str_join '' * '' pos_terms) @
           '' / '' @
           (if length neg_terms > 1 then ''('' @ str_join '' * '' neg_terms @ '')''
            else str_join '' * '' neg_terms))"
    using run ne
    by (simp add: formatter_def show_as_ratio_def Let_def join_plain no_field_product
        no_field_division str_format_parentheses)
next
  show "formatter [(''m'', 1), (''s'', - 1), (''kg'', - 1)] True True '' * '' '' / ''
     ''{} ** {}'' ''({0})'' format_n False = Inr ''m / (s * kg)''"
    by code_simp
next
  show "formatter [(''m'', 1), (''s'', - 1), (''kg'', - 1)] True True '' * '' '' / ''
     ''{} ** {}'' ''({0})'' format_n True = Inr ''m / (kg * s)''"
    by code_simp
qed

theorem single_denominator_parentheses_witness:
  "terms_loop True ''{} ** {}'' (\<lambda>x. format_n \<bar>x\<bar>)
      (if False then sort [(''m'', 2), (''s'', - 2)] else [(''m'', 2), (''s'', - 2)]) [] [] =
      Inr ([''m ** 2''], [''s ** 2'']) \<and>
   [''s ** 2''] \<noteq> [] \<and>
   formatter [(''m'', 2), (''s'', - 2)] True True '' * '' '' / '' ''{} ** {}'' ''({0})''
     format_n False =
     Inr ((if str_join '' * '' [''m ** 2''] = [] then ''1'' else str_join '' * '' [''m ** 2'']) @
          '' / '' @
          (if length [''s ** 2''] > 1 then ''('' @ str_join '' * '' [''s ** 2''] @ '')''
           else str_join '' * '' [''s ** 2'']))"
proof -
  have run: "terms_loop True ''{} ** {}'' (\<lambda>x. format_n \<bar>x\<bar>)
      (if False then sort [(''m'', 2), (''s'', - 2)] else [(''m'', 2), (''s'', - 2)]) [] [] =
      Inr ([''m ** 2''], [''s ** 2''])"
    by code_simp
  have ne: "[''s ** 2''] \<noteq> []" by simp
  from single_denominator_parentheses [of "''{} ** {}''" format_n False
      "[(''m'', 2), (''s'', - 2)]" "[''m ** 2'']" "[''s ** 2'']"] run ne
  show ?thesis by blast
qed

theorem default_sort_counterexample:
  "formatter [(''m'', 1), (''s'', - 1), (''kg'', - 1)] True True '' * '' '' / '' ''{} ** {}''
     ''({0})'' format_n True = Inr ''m / (kg * s)'' \<and>
   formatter [(''m'', 1), (''s'', - 1), (''kg'', - 1)] True True '' * '' '' / '' ''{} ** {}''
     ''({0})'' format_n True \<noteq> Inr ''m / (s * kg)''"
  by code_simp

section \<open>Properties of the join helper\<close>

lemma startswith_prefix: "startswith s p = prefix p s"
  by (auto simp: startswith_def prefix_def take_is_prefix[unfolded prefix_def])
    (metis append_eq_conv_conj)

text \<open>
  C5. When the unit string is \<^verbatim>\<open>"1 / "\<close> followed by some rest, \<^verbatim>\<open>join_mu\<close>
  formats the magnitude with \<^verbatim>\<open>"/ "\<close> and that rest, the unit string without its
  first two characters. When the unit string does not start with \<^verbatim>\<open>"1 / "\<close>, it
  formats the magnitude with the unit string as it is. So
  \<^verbatim>\<open>join_mu("{} {}", "5", "1 / s")\<close> is \<^verbatim>\<open>"5 / s"\<close> and
  \<^verbatim>\<open>join_mu("{} {}", "5", "m / s")\<close> is \<^verbatim>\<open>"5 m / s"\<close>.
\<close>

theorem join_mu_reciprocal:
  "(ustr = ''1 / '' @ rest \<longrightarrow>
      join_mu joint_fstring mstr ustr = str_format joint_fstring [mstr, ''/ '' @ rest] \<and>
      ''/ '' @ rest = drop 2 ustr) \<and>
   (\<not> prefix ''1 / '' ustr' \<longrightarrow>
      join_mu joint_fstring mstr ustr' = str_format joint_fstring [mstr, ustr']) \<and>
   join_mu ''{} {}'' ''5'' ''1 / s'' = Inr ''5 / s'' \<and>
   join_mu ''{} {}'' ''5'' ''m / s'' = Inr ''5 m / s''"
proof (intro conjI impI)
  assume "ustr = ''1 / '' @ rest"
  then show "join_mu joint_fstring mstr ustr = str_format joint_fstring [mstr, ''/ '' @ rest]"
    by (simp add: join_mu_def startswith_def)
next
  assume "ustr = ''1 / '' @ rest"
  then show "''/ '' @ rest = drop 2 ustr"
    by simp
next
  assume "\<not> prefix ''1 / '' ustr'"
  then show "join_mu joint_fstring mstr ustr' = str_format joint_fstring [mstr, ustr']"
    by (simp add: join_mu_def startswith_prefix)
next
  show "join_mu ''{} {}'' ''5'' ''1 / s'' = Inr ''5 / s''"
    by code_simp
next
  show "join_mu ''{} {}'' ''5'' ''m / s'' = Inr ''5 m / s''"
    by code_simp
qed

theorem join_mu_reciprocal_witness:
  "''1 / kg'' = ''1 / '' @ ''kg'' \<and>
   join_mu ''{}_{}'' ''7'' ''1 / kg'' = str_format ''{}_{}'' [''7'', ''/ '' @ ''kg''] \<and>
   \<not> prefix ''1 / '' ''1/kg'' \<and>
   join_mu ''{}_{}'' ''7'' ''1/kg'' = str_format ''{}_{}'' [''7'', ''1/kg'']"
proof -
  have a: "''1 / kg'' = ''1 / '' @ ''kg''" by simp
  have b: "\<not> prefix ''1 / '' ''1/kg''" by simp
  from join_mu_reciprocal [of "''1 / kg''" "''kg''" "''{}_{}''" "''7''" "''1/kg''"] a b
  show ?thesis by blast
qed

section \<open>Properties of the format specification\<close>

lemma remove_custom_flags_empty: "remove_custom_flags FORMATTERS [] = []"
proof -
  have "foldl (\<lambda>spec flag. if flag \<noteq> [] then str_replace spec flag [] else spec) [] flags = []"
    for flags
    by (induction flags) (auto simp: str_replace_def split: list.splits)
  then show ?thesis by (simp add: remove_custom_flags_def str_replace_def)
qed

text \<open>
  C1, as the code has it. With \<^verbatim>\<open>separate_format_defaults\<close> false no warning is
  ever emitted, and neither with true. For an empty spec false returns the two parts
  of the default, and so does true. For a spec that is not empty, false returns the
  two parts of the spec as they are, with no fallback, while true replaces an empty
  part by the default's. So the two results are the same exactly when the spec is
  empty or every part that is empty in the spec is empty in the default too.
\<close>

theorem strict_silent_no_fallback:
  "split_format FORMATTERS spec default_spec (Some False) =
     ((if spec = []
       then (remove_custom_flags FORMATTERS default_spec,
             extract_custom_flags FORMATTERS default_spec)
       else (remove_custom_flags FORMATTERS spec, extract_custom_flags FORMATTERS spec)),
      []) \<and>
   split_format FORMATTERS spec default_spec (Some True) =
     ((if remove_custom_flags FORMATTERS spec \<noteq> [] then remove_custom_flags FORMATTERS spec
       else remove_custom_flags FORMATTERS default_spec,
       if extract_custom_flags FORMATTERS spec \<noteq> [] then extract_custom_flags FORMATTERS spec
       else extract_custom_flags FORMATTERS default_spec),
      []) \<and>
   split_format FORMATTERS [] default_spec (Some True) =
     ((remove_custom_flags FORMATTERS default_spec,
       extract_custom_flags FORMATTERS default_spec), []) \<and>
   snd (split_format FORMATTERS spec default_spec (Some False)) = [] \<and>
   snd (split_format FORMATTERS spec default_spec (Some True)) = [] \<and>
   fst (split_format FORMATTERS spec default_spec (Some False)) =
     (if spec = [] then fst (split_format FORMATTERS spec default_spec (Some True))
      else (remove_custom_flags FORMATTERS spec, extract_custom_flags FORMATTERS spec)) \<and>
   ((fst (split_format FORMATTERS spec default_spec (Some False)) =
     fst (split_format FORMATTERS spec default_spec (Some True))) =
    (spec = [] \<or>
     ((remove_custom_flags FORMATTERS spec \<noteq> [] \<or>
       remove_custom_flags FORMATTERS default_spec = []) \<and>
      (extract_custom_flags FORMATTERS spec \<noteq> [] \<or>
       extract_custom_flags FORMATTERS default_spec = []))))"
proof -
  have empty_true: "split_format FORMATTERS [] default_spec (Some True) =
     ((remove_custom_flags FORMATTERS default_spec,
       extract_custom_flags FORMATTERS default_spec), [])"
    by (simp add: split_format_def Let_def remove_custom_flags_empty extract_custom_flags_def)
  show ?thesis
  proof (cases "spec = []")
    case True
    with empty_true show ?thesis
      by (simp add: split_format_def Let_def remove_custom_flags_empty extract_custom_flags_def)
  next
    case False
    with empty_true show ?thesis
      by (auto simp: split_format_def Let_def)
  qed
qed

theorem strict_silent_no_fallback_witness:
  "split_format [''D'', ''P'', ''L'', ''Lx'', ''H'', ''C''] [] ''.2f~P'' (Some False) =
     ((''.2f'', ''~P''), []) \<and>
   split_format [''D'', ''P'', ''L'', ''Lx'', ''H'', ''C''] [] ''.2f~P'' (Some True) =
     ((''.2f'', ''~P''), []) \<and>
   split_format [''D'', ''P'', ''L'', ''Lx'', ''H'', ''C''] ''.3e'' ''.2f~P'' (Some False) =
     ((''.3e'', []), []) \<and>
   split_format [''D'', ''P'', ''L'', ''Lx'', ''H'', ''C''] ''.3e'' ''.2f~P'' (Some True) =
     ((''.3e'', ''~P''), [])"
proof -
  have d: "remove_custom_flags [''D'', ''P'', ''L'', ''Lx'', ''H'', ''C''] ''.2f~P'' = ''.2f''"
    "extract_custom_flags [''D'', ''P'', ''L'', ''Lx'', ''H'', ''C''] ''.2f~P'' = ''~P''"
    by code_simp+
  have s: "remove_custom_flags [''D'', ''P'', ''L'', ''Lx'', ''H'', ''C''] ''.3e'' = ''.3e''"
    "extract_custom_flags [''D'', ''P'', ''L'', ''Lx'', ''H'', ''C''] ''.3e'' = []"
    by code_simp+
  have e: "remove_custom_flags [''D'', ''P'', ''L'', ''Lx'', ''H'', ''C''] [] = []"
    "extract_custom_flags [''D'', ''P'', ''L'', ''Lx'', ''H'', ''C''] [] = []"
    by code_simp+
  note a = strict_silent_no_fallback
    [of "[''D'', ''P'', ''L'', ''Lx'', ''H'', ''C'']" "[]" "''.2f~P''"]
  note b = strict_silent_no_fallback
    [of "[''D'', ''P'', ''L'', ''Lx'', ''H'', ''C'']" "''.3e''" "''.2f~P''"]
  from a [THEN conjunct1] a [THEN conjunct2, THEN conjunct1]
    b [THEN conjunct1] b [THEN conjunct2, THEN conjunct1]
  show ?thesis by (simp add: d s e)
qed

theorem strict_silent_counterexample:
  "fst (split_format [] ''d'' ''~'' (Some False)) = (''d'', '''') \<and>
   fst (split_format [] ''d'' ''~'' (Some True)) = (''d'', ''~'') \<and>
   fst (split_format [] ''d'' ''~'' (Some False)) \<noteq> fst (split_format [] ''d'' ''~'' (Some True))"
  by code_simp

text \<open>
  C2, as the code has it. With \<^verbatim>\<open>separate_format_defaults\<close> \<^verbatim>\<open>None\<close> and a spec
  that is not empty: the unit warning is emitted exactly when the unit part of the spec
  is empty and that of the default is not, then the magnitude warning exactly when the
  magnitude part of the spec is empty and that of the default is not. The pair
  returned is the two parts of the spec as they are: a part that is empty in the spec
  is returned empty, not replaced by the default's.
\<close>

theorem strict_warning_no_fallback:
  "spec \<noteq> [] \<Longrightarrow>
   split_format FORMATTERS spec default_spec None =
     ((remove_custom_flags FORMATTERS spec, extract_custom_flags FORMATTERS spec),
      (if extract_custom_flags FORMATTERS spec = [] \<and>
          extract_custom_flags FORMATTERS default_spec \<noteq> []
       then [DeprecationWarning no_unit_formatter_msg] else []) @
      (if remove_custom_flags FORMATTERS spec = [] \<and>
          remove_custom_flags FORMATTERS default_spec \<noteq> []
       then [DeprecationWarning no_magnitude_formatter_msg] else []))"
  by (simp add: split_format_def Let_def)

theorem strict_warning_no_fallback_witness:
  "''~P'' \<noteq> [] \<and>
   split_format [''P''] ''~P'' ''.3f~L'' None =
     ((remove_custom_flags [''P''] ''~P'', extract_custom_flags [''P''] ''~P''),
      (if extract_custom_flags [''P''] ''~P'' = [] \<and>
          extract_custom_flags [''P''] ''.3f~L'' \<noteq> []
       then [DeprecationWarning no_unit_formatter_msg] else []) @
      (if remove_custom_flags [''P''] ''~P'' = [] \<and>
          remove_custom_flags [''P''] ''.3f~L'' \<noteq> []
       then [DeprecationWarning no_magnitude_formatter_msg] else []))"
proof -
  have ne: "''~P'' \<noteq> []" by simp
  from ne strict_warning_no_fallback [OF ne, of "[''P'']" "''.3f~L''"]
  show ?thesis by (rule conjI)
qed

theorem strict_warning_counterexample:
  "''d'' \<noteq> [] \<and>
   extract_custom_flags [] ''d'' = [] \<and>
   extract_custom_flags [] ''~'' = ''~'' \<and>
   split_format [] ''d'' ''~'' None = ((''d'', ''''), [DeprecationWarning no_unit_formatter_msg]) \<and>
   snd (fst (split_format [] ''d'' ''~'' None)) \<noteq> extract_custom_flags [] ''~''"
  by code_simp

lemma parse_loop_Cons:
  "parse_loop F r (ch # rest) =
     (if skipped ch then parse_loop F r rest
      else if flag_char F ch then
        (if r \<noteq> [] then Inl (ValueError ''expected ':' after format specifier'')
         else parse_loop F [ch] rest)
      else if unknown_char F ch then Inl (ValueError (''Unknown conversion specified '' @ [ch]))
      else Inr r)"
  by (auto simp: skipped_def flag_char_def unknown_char_def)

lemma char_kinds:
  "skipped ch \<or> flag_char F ch \<or> unknown_char F ch \<or> boundary_char F ch"
  by (auto simp: flag_char_def unknown_char_def boundary_char_def)

lemma scanned_skipped: "skipped ch \<Longrightarrow> scanned F ch"
  by (simp add: scanned_def)

lemma scanned_flag: "flag_char F ch \<Longrightarrow> scanned F ch"
  by (simp add: scanned_def)

lemma scan_through:
  "list_all (scanned F) a \<Longrightarrow>
   length (filter (flag_char F) a) \<le> (if r = [] then 1 else 0) \<Longrightarrow>
   parse_loop F r (a @ rest) = parse_loop F (r @ filter (flag_char F) a) rest"
proof (induction a arbitrary: r)
  case Nil
  then show ?case by simp
next
  case (Cons x a)
  show ?case
  proof (cases "skipped x")
    case True
    then have nf: "\<not> flag_char F x" by (simp add: flag_char_def)
    with Cons.prems have "parse_loop F r (a @ rest) = parse_loop F (r @ filter (flag_char F) a) rest"
      by (intro Cons.IH) auto
    with True nf show ?thesis by (simp add: parse_loop_Cons del: parse_loop.simps)
  next
    case False
    with Cons.prems have fl: "flag_char F x" by (simp add: scanned_def)
    with Cons.prems have r: "r = []" by (auto split: if_splits)
    from fl Cons.prems r
    have "parse_loop F [x] (a @ rest) = parse_loop F ([x] @ filter (flag_char F) a) rest"
      by (intro Cons.IH) auto
    with False fl r show ?thesis by (simp add: parse_loop_Cons del: parse_loop.simps)
  qed
qed

lemma parse_loop_outcome:
  "\<exists>a rest. xs = a @ rest \<and> list_all (scanned F) a \<and>
     length (filter (flag_char F) a) \<le> (if r = [] then 1 else 0) \<and>
     (rest = [] \<or>
      (\<exists>y ys. rest = y # ys \<and>
         ((flag_char F y \<and> r @ filter (flag_char F) a \<noteq> []) \<or> unknown_char F y \<or>
          boundary_char F y)))"
proof (induction xs arbitrary: r)
  case Nil
  show ?case by simp
next
  case (Cons x xs)
  consider (skip) "skipped x" | (flag1) "flag_char F x" "r = []" | (flag2) "flag_char F x" "r \<noteq> []"
    | (unknown) "unknown_char F x" | (boundary) "boundary_char F x"
    using char_kinds [of x F] by blast
  then show ?case
  proof cases
    case skip
    from Cons.IH [of r] obtain a rest where
      d: "xs = a @ rest" "list_all (scanned F) a"
        "length (filter (flag_char F) a) \<le> (if r = [] then 1 else 0)"
        "rest = [] \<or> (\<exists>y ys. rest = y # ys \<and>
           ((flag_char F y \<and> r @ filter (flag_char F) a \<noteq> []) \<or> unknown_char F y \<or>
            boundary_char F y))"
      by blast
    from skip have nf: "\<not> flag_char F x" by (simp add: flag_char_def)
    show ?thesis
      by (rule exI [of _ "x # a"], rule exI [of _ rest])
        (use d skip nf in \<open>simp add: scanned_skipped\<close>)
  next
    case flag1
    from Cons.IH [of "[x]"] obtain a rest where
      d: "xs = a @ rest" "list_all (scanned F) a"
        "length (filter (flag_char F) a) \<le> 0"
        "rest = [] \<or> (\<exists>y ys. rest = y # ys \<and>
           ((flag_char F y \<and> [x] @ filter (flag_char F) a \<noteq> []) \<or> unknown_char F y \<or>
            boundary_char F y))"
      by auto
    show ?thesis
      by (rule exI [of _ "x # a"], rule exI [of _ rest])
        (use d flag1 in \<open>simp add: scanned_flag\<close>)
  next
    case flag2
    show ?thesis
      by (rule exI [of _ "[]"], rule exI [of _ "x # xs"]) (use flag2 in simp)
  next
    case unknown
    show ?thesis
      by (rule exI [of _ "[]"], rule exI [of _ "x # xs"]) (use unknown in simp)
  next
    case boundary
    show ?thesis
      by (rule exI [of _ "[]"], rule exI [of _ "x # xs"]) (use boundary in simp)
  qed
qed
lemma flag_char_excl: "flag_char F ch \<Longrightarrow> \<not> skipped ch \<and> \<not> unknown_char F ch"
  by (simp add: flag_char_def unknown_char_def)

lemma unknown_char_excl: "unknown_char F ch \<Longrightarrow> \<not> skipped ch \<and> \<not> flag_char F ch"
  by (simp add: flag_char_def unknown_char_def)

lemma boundary_char_excl:
  "boundary_char F ch \<Longrightarrow> \<not> skipped ch \<and> \<not> flag_char F ch \<and> \<not> unknown_char F ch"
  by (simp add: flag_char_def unknown_char_def boundary_char_def)

lemma parse_loop_unknown_iff:
  "(parse_loop F r xs = Inl (ValueError (''Unknown conversion specified '' @ [c]))) =
   (\<exists>a b. xs = a @ c # b \<and> unknown_char F c \<and> list_all (scanned F) a \<and>
      length (filter (flag_char F) a) \<le> (if r = [] then 1 else 0))"
proof
  assume err: "parse_loop F r xs = Inl (ValueError (''Unknown conversion specified '' @ [c]))"
  from parse_loop_outcome [of xs F r] obtain a rest where
    d: "xs = a @ rest" "list_all (scanned F) a"
      "length (filter (flag_char F) a) \<le> (if r = [] then 1 else 0)" and
    k: "rest = [] \<or> (\<exists>y ys. rest = y # ys \<and>
         ((flag_char F y \<and> r @ filter (flag_char F) a \<noteq> []) \<or> unknown_char F y \<or>
          boundary_char F y))"
    by blast
  from d have run: "parse_loop F r xs = parse_loop F (r @ filter (flag_char F) a) rest"
    by (simp add: scan_through)
  from k show "\<exists>a b. xs = a @ c # b \<and> unknown_char F c \<and> list_all (scanned F) a \<and>
      length (filter (flag_char F) a) \<le> (if r = [] then 1 else 0)"
  proof
    assume "rest = []"
    with run err show ?thesis by simp
  next
    assume "\<exists>y ys. rest = y # ys \<and>
         ((flag_char F y \<and> r @ filter (flag_char F) a \<noteq> []) \<or> unknown_char F y \<or>
          boundary_char F y)"
    then obtain y ys where rest: "rest = y # ys" and
      kind: "(flag_char F y \<and> r @ filter (flag_char F) a \<noteq> []) \<or> unknown_char F y \<or>
          boundary_char F y"
      by blast
    from kind consider (flag) "flag_char F y" "r @ filter (flag_char F) a \<noteq> []"
      | (unknown) "unknown_char F y" | (boundary) "boundary_char F y"
      by blast
    then show ?thesis
    proof cases
      case flag
      with run err rest flag_char_excl [of F y] show ?thesis
        by (simp add: parse_loop_Cons del: parse_loop.simps)
    next
      case unknown
      with run err rest unknown_char_excl [of F y] have "y = c"
        by (simp add: parse_loop_Cons del: parse_loop.simps)
      with d rest unknown show ?thesis by blast
    next
      case boundary
      with run err rest boundary_char_excl [of F y] show ?thesis
        by (simp add: parse_loop_Cons del: parse_loop.simps)
    qed
  qed
next
  assume "\<exists>a b. xs = a @ c # b \<and> unknown_char F c \<and> list_all (scanned F) a \<and>
      length (filter (flag_char F) a) \<le> (if r = [] then 1 else 0)"
  then obtain a b where d: "xs = a @ c # b" "unknown_char F c" "list_all (scanned F) a"
      "length (filter (flag_char F) a) \<le> (if r = [] then 1 else 0)"
    by blast
  then have "parse_loop F r xs = parse_loop F (r @ filter (flag_char F) a) (c # b)"
    by (simp add: scan_through)
  with d(2) unknown_char_excl [of F c]
  show "parse_loop F r xs = Inl (ValueError (''Unknown conversion specified '' @ [c]))"
    by (simp add: parse_loop_Cons del: parse_loop.simps)
qed

lemma parse_loop_expected_iff:
  "(parse_loop F r xs = Inl (ValueError ''expected ':' after format specifier'')) =
   (\<exists>a c b. xs = a @ c # b \<and> flag_char F c \<and> list_all (scanned F) a \<and>
      length (filter (flag_char F) a) \<le> (if r = [] then 1 else 0) \<and>
      r @ filter (flag_char F) a \<noteq> [])"
proof
  assume err: "parse_loop F r xs = Inl (ValueError ''expected ':' after format specifier'')"
  from parse_loop_outcome [of xs F r] obtain a rest where
    d: "xs = a @ rest" "list_all (scanned F) a"
      "length (filter (flag_char F) a) \<le> (if r = [] then 1 else 0)" and
    k: "rest = [] \<or> (\<exists>y ys. rest = y # ys \<and>
         ((flag_char F y \<and> r @ filter (flag_char F) a \<noteq> []) \<or> unknown_char F y \<or>
          boundary_char F y))"
    by blast
  from d have run: "parse_loop F r xs = parse_loop F (r @ filter (flag_char F) a) rest"
    by (simp add: scan_through)
  from k show "\<exists>a c b. xs = a @ c # b \<and> flag_char F c \<and> list_all (scanned F) a \<and>
      length (filter (flag_char F) a) \<le> (if r = [] then 1 else 0) \<and>
      r @ filter (flag_char F) a \<noteq> []"
  proof
    assume "rest = []"
    with run err show ?thesis by simp
  next
    assume "\<exists>y ys. rest = y # ys \<and>
         ((flag_char F y \<and> r @ filter (flag_char F) a \<noteq> []) \<or> unknown_char F y \<or>
          boundary_char F y)"
    then obtain y ys where rest: "rest = y # ys" and
      kind: "(flag_char F y \<and> r @ filter (flag_char F) a \<noteq> []) \<or> unknown_char F y \<or>
          boundary_char F y"
      by blast
    from kind consider (flag) "flag_char F y" "r @ filter (flag_char F) a \<noteq> []"
      | (unknown) "unknown_char F y" | (boundary) "boundary_char F y"
      by blast
    then show ?thesis
    proof cases
      case flag
      with d rest show ?thesis by blast
    next
      case unknown
      with run err rest unknown_char_excl [of F y] show ?thesis
        by (simp add: parse_loop_Cons del: parse_loop.simps)
    next
      case boundary
      with run err rest boundary_char_excl [of F y] show ?thesis
        by (simp add: parse_loop_Cons del: parse_loop.simps)
    qed
  qed
next
  assume "\<exists>a c b. xs = a @ c # b \<and> flag_char F c \<and> list_all (scanned F) a \<and>
      length (filter (flag_char F) a) \<le> (if r = [] then 1 else 0) \<and>
      r @ filter (flag_char F) a \<noteq> []"
  then obtain a c b where d: "xs = a @ c # b" "flag_char F c" "list_all (scanned F) a"
      "length (filter (flag_char F) a) \<le> (if r = [] then 1 else 0)"
      "r @ filter (flag_char F) a \<noteq> []"
    by blast
  then have "parse_loop F r xs = parse_loop F (r @ filter (flag_char F) a) (c # b)"
    by (simp add: scan_through)
  with d(2,5) flag_char_excl [of F c]
  show "parse_loop F r xs = Inl (ValueError ''expected ':' after format specifier'')"
    by (simp add: parse_loop_Cons del: parse_loop.simps)
qed

lemma parse_loop_success:
  assumes "xs = a @ rest" "list_all (scanned F) a"
    "length (filter (flag_char F) a) \<le> (if r = [] then 1 else 0)"
    "rest = [] \<or> boundary_char F (hd rest)"
  shows "parse_loop F r xs = Inr (r @ filter (flag_char F) a)"
proof -
  from assms have run: "parse_loop F r xs = parse_loop F (r @ filter (flag_char F) a) rest"
    by (simp add: scan_through)
  show ?thesis
  proof (cases rest)
    case Nil
    with run show ?thesis by simp
  next
    case (Cons y ys)
    with assms(4) have "boundary_char F y" by simp
    with run Cons boundary_char_excl [of F y] show ?thesis
      by (simp add: parse_loop_Cons del: parse_loop.simps)
  qed
qed
lemma rev_split_iff:
  "(\<exists>a b. rev spec = a @ c # b \<and> P (rev a)) = (\<exists>pre suf. spec = pre @ c # suf \<and> P suf)"
proof
  assume "\<exists>a b. rev spec = a @ c # b \<and> P (rev a)"
  then obtain a b where ab: "rev spec = a @ c # b" "P (rev a)" by blast
  from ab(1) have "rev (rev spec) = rev (a @ c # b)" by simp
  then have "spec = rev b @ c # rev a" by simp
  with ab(2) show "\<exists>pre suf. spec = pre @ c # suf \<and> P suf" by blast
next
  assume "\<exists>pre suf. spec = pre @ c # suf \<and> P suf"
  then obtain pre suf where ps: "spec = pre @ c # suf" "P suf" by blast
  then have "rev spec = rev suf @ c # rev pre \<and> P (rev (rev suf))" by simp
  then show "\<exists>a b. rev spec = a @ c # b \<and> P (rev a)" by blast
qed

lemma le_one_nonempty: "(length xs \<le> Suc 0 \<and> xs \<noteq> []) = (length xs = Suc 0)"
  by (cases xs) auto

lemma length_filter_rev: "length (filter P (rev xs)) = length (filter P xs)"
  by (simp add: rev_filter [symmetric])

text \<open>
  C7. \<^verbatim>\<open>_parse_spec\<close> raises \<^verbatim>\<open>ValueError("Unknown conversion specified " + ch)\<close>
  for a character \<open>c\<close> exactly when the scan from the end reaches an unknown letter
  \<open>c\<close>: a letter that is neither a basic type, nor the marker \<^verbatim>\<open>~\<close>, nor a key of
  the registry, with only scanned characters after it in the spec and at most one flag
  character among them. Conversely, when the characters after the last boundary
  character of the spec (or all of them, if there is none) are scanned characters
  with at most one flag character among them, \<^verbatim>\<open>_parse_spec\<close> raises nothing and
  returns that flag character, or the empty string. A flag is read here as the loop
  reads it: one character that is a key of the registry.
\<close>

theorem unknown_conversion_exactly:
  "((parse_spec F spec = Inl (ValueError (''Unknown conversion specified '' @ [c]))) =
    (\<exists>pre suf. spec = pre @ c # suf \<and> unknown_char F c \<and> list_all (scanned F) suf \<and>
       length (filter (flag_char F) suf) \<le> 1)) \<and>
   (list_all (scanned F) suf' \<and> length (filter (flag_char F) suf') \<le> 1 \<and>
    (pre' = [] \<or> boundary_char F (last pre')) \<longrightarrow>
    parse_spec F (pre' @ suf') = Inr (filter (flag_char F) suf'))"
proof (intro conjI impI)
  have "(parse_spec F spec = Inl (ValueError (''Unknown conversion specified '' @ [c]))) =
    (\<exists>a b. rev spec = a @ c # b \<and> unknown_char F c \<and> list_all (scanned F) a \<and>
       length (filter (flag_char F) a) \<le> (if ([]::string) = [] then 1 else 0))"
    unfolding parse_spec_def by (rule parse_loop_unknown_iff)
  also have "\<dots> = (\<exists>a b. rev spec = a @ c # b \<and>
       (unknown_char F c \<and> list_all (scanned F) (rev a) \<and>
        length (filter (flag_char F) (rev a)) \<le> 1))"
    by (simp add: length_filter_rev)
  also have "\<dots> = (\<exists>pre suf. spec = pre @ c # suf \<and>
       (unknown_char F c \<and> list_all (scanned F) suf \<and>
        length (filter (flag_char F) suf) \<le> 1))"
    by (rule rev_split_iff)
  finally show "(parse_spec F spec = Inl (ValueError (''Unknown conversion specified '' @ [c]))) =
    (\<exists>pre suf. spec = pre @ c # suf \<and> unknown_char F c \<and> list_all (scanned F) suf \<and>
       length (filter (flag_char F) suf) \<le> 1)" .
next
  assume h: "list_all (scanned F) suf' \<and> length (filter (flag_char F) suf') \<le> 1 \<and>
    (pre' = [] \<or> boundary_char F (last pre'))"
  have "parse_loop F [] (rev (pre' @ suf')) = Inr ([] @ filter (flag_char F) (rev suf'))"
  proof (rule parse_loop_success)
    show "rev (pre' @ suf') = rev suf' @ rev pre'" by simp
    show "list_all (scanned F) (rev suf')" using h by simp
    show "length (filter (flag_char F) (rev suf')) \<le> (if ([]::string) = [] then 1 else 0)"
      using h by (simp add: length_filter_rev)
    show "rev pre' = [] \<or> boundary_char F (hd (rev pre'))"
      using h by (cases "pre' = []") (simp_all add: hd_rev)
  qed
  moreover from h have "filter (flag_char F) (rev suf') = filter (flag_char F) suf'"
    by (cases "filter (flag_char F) suf'" rule: rev_cases)
      (auto simp: rev_filter [symmetric])
  ultimately show "parse_spec F (pre' @ suf') = Inr (filter (flag_char F) suf')"
    by (simp add: parse_spec_def)
qed

theorem unknown_conversion_exactly_witness:
  "unknown_char [''P''] CHR ''Q'' \<and> list_all (scanned [''P'']) ''~Pd'' \<and>
   length (filter (flag_char [''P'']) ''~Pd'') \<le> 1 \<and>
   parse_spec [''P''] (''.2'' @ CHR ''Q'' # ''~Pd'') =
     Inl (ValueError (''Unknown conversion specified '' @ [CHR ''Q''])) \<and>
   boundary_char [''P''] (last ''.2'') \<and>
   parse_spec [''P''] (''.2'' @ ''~Pd'') = Inr (filter (flag_char [''P'']) ''~Pd'')"
proof -
  have a: "unknown_char [''P''] CHR ''Q''" by code_simp
  have b: "list_all (scanned [''P'']) ''~Pd''" by code_simp
  have c: "length (filter (flag_char [''P'']) ''~Pd'') \<le> 1" by code_simp
  have d: "boundary_char [''P''] (last ''.2'')" by code_simp
  from unknown_conversion_exactly [of "[''P'']" "''.2'' @ CHR ''Q'' # ''~Pd''" "CHR ''Q''"
      "''~Pd''" "''.2''"] a b c d
  show ?thesis by blast
qed

text \<open>
  C6, as the code has it. \<^verbatim>\<open>_parse_spec\<close> raises
  \<^verbatim>\<open>ValueError("expected ':' after format specifier")\<close>, and nothing in it catches
  the exception, exactly when the scan from the end reaches a second flag character:
  a flag character with only scanned characters after it in the spec, exactly one of
  them a flag character. The message is this text, not
  \<^verbatim>\<open>"expected separator after format specifier."\<close>.
\<close>

theorem second_flag_error:
  "(parse_spec F spec = Inl (ValueError ''expected ':' after format specifier'')) =
   (\<exists>pre c suf. spec = pre @ c # suf \<and> flag_char F c \<and> list_all (scanned F) suf \<and>
      length (filter (flag_char F) suf) = 1)"
proof -
  have "(parse_spec F spec = Inl (ValueError ''expected ':' after format specifier'')) =
    (\<exists>a c b. rev spec = a @ c # b \<and> flag_char F c \<and> list_all (scanned F) a \<and>
      length (filter (flag_char F) a) \<le> (if ([]::string) = [] then 1 else 0) \<and>
      [] @ filter (flag_char F) a \<noteq> [])"
    unfolding parse_spec_def by (rule parse_loop_expected_iff)
  also have "\<dots> = (\<exists>a c b. rev spec = a @ c # b \<and>
       (flag_char F c \<and> list_all (scanned F) (rev a) \<and>
        length (filter (flag_char F) (rev a)) = 1))"
    by (simp add: length_filter_rev le_one_nonempty)
  also have "\<dots> = (\<exists>c. \<exists>a b. rev spec = a @ c # b \<and>
       (flag_char F c \<and> list_all (scanned F) (rev a) \<and>
        length (filter (flag_char F) (rev a)) = 1))"
    by blast
  also have "\<dots> = (\<exists>c. \<exists>pre suf. spec = pre @ c # suf \<and>
       (flag_char F c \<and> list_all (scanned F) suf \<and>
        length (filter (flag_char F) suf) = 1))"
    by (rule arg_cong [where f = Ex], rule ext, rule rev_split_iff)
  finally show ?thesis by blast
qed

theorem second_flag_error_witness:
  "flag_char [''P'', ''L''] CHR ''P'' \<and> list_all (scanned [''P'', ''L'']) ''~L'' \<and>
   length (filter (flag_char [''P'', ''L'']) ''~L'') = 1 \<and>
   parse_spec [''P'', ''L''] (''.2f'' @ CHR ''P'' # ''~L'') =
     Inl (ValueError ''expected ':' after format specifier'')"
proof -
  have a: "flag_char [''P'', ''L''] CHR ''P''" by code_simp
  have b: "list_all (scanned [''P'', ''L'']) ''~L''" by code_simp
  have c: "length (filter (flag_char [''P'', ''L'']) ''~L'') = 1" by code_simp
  from second_flag_error [of "[''P'', ''L'']" "''.2f'' @ CHR ''P'' # ''~L''"] a b c
  show ?thesis by blast
qed

theorem second_flag_message_counterexample:
  "parse_spec [''P''] ''PP'' = Inl (ValueError ''expected ':' after format specifier'') \<and>
   parse_spec [''P''] ''PP'' \<noteq> Inl (ValueError ''expected separator after format specifier.'')"
  by code_simp

lemma set_replace_scan_delete: "set (replace_scan c cs [] s) \<subseteq> set s"
proof (induction c cs "[] :: string" s rule: replace_scan.induct)
  case (1 c cs)
  show ?case by simp
next
  case (2 c cs x xs)
  show ?case
  proof (cases "x = c \<and> take (length cs) xs = cs")
    case True
    with 2 have "set (replace_scan c cs [] (drop (length cs) xs)) \<subseteq> set (drop (length cs) xs)"
      by simp
    also have "\<dots> \<subseteq> set xs" by (rule set_drop_subset)
    finally show ?thesis using True by auto
  next
    case False
    with 2 have "set (replace_scan c cs [] xs) \<subseteq> set xs" by simp
    with False show ?thesis by auto
  qed
qed

lemma replace_scan_single: "c \<notin> set (replace_scan c [] [] s)"
  by (induction s) auto

lemma set_delete_step:
  "set (if flag \<noteq> [] then str_replace s flag [] else s) \<subseteq> set s"
  by (cases flag) (simp_all add: str_replace_def set_replace_scan_delete)

lemma set_delete_all:
  "set (foldl (\<lambda>spec flag. if flag \<noteq> [] then str_replace spec flag [] else spec) s flags)
     \<subseteq> set s"
proof (induction flags arbitrary: s)
  case Nil
  show ?case by simp
next
  case (Cons flag flags)
  have "set (foldl (\<lambda>spec flag. if flag \<noteq> [] then str_replace spec flag [] else spec)
               (if flag \<noteq> [] then str_replace s flag [] else s) flags)
        \<subseteq> set (if flag \<noteq> [] then str_replace s flag [] else s)"
    by (rule Cons.IH)
  also have "\<dots> \<subseteq> set s" by (rule set_delete_step)
  finally show ?case by simp
qed

lemma single_char_deleted:
  "[c] \<in> set flags \<Longrightarrow>
   c \<notin> set (foldl (\<lambda>spec flag. if flag \<noteq> [] then str_replace spec flag [] else spec) s flags)"
proof (induction flags arbitrary: s)
  case Nil
  then show ?case by simp
next
  case (Cons flag flags)
  show ?case
  proof (cases "flag = [c]")
    case True
    have "c \<notin> set (str_replace s [c] [])"
      by (simp add: str_replace_def replace_scan_single)
    with set_delete_all [of "str_replace s [c] []" flags] True show ?thesis
      by auto
  next
    case False
    with Cons.prems have "[c] \<in> set flags" by simp
    from Cons.IH [OF this] show ?thesis by simp
  qed
qed

lemma remove_custom_flags_no_single:
  "[c] \<in> set F \<or> c = CHR ''~'' \<Longrightarrow> c \<notin> set (remove_custom_flags F s)"
  unfolding remove_custom_flags_def
  by (rule single_char_deleted) (auto simp: known_flags_def)

lemma startswith_set: "startswith s f \<Longrightarrow> set f \<subseteq> set s"
  unfolding startswith_def by (metis set_take_subset)

lemma findall_nothing:
  "(\<And>f. f \<in> set alts \<Longrightarrow> f \<noteq> [] \<Longrightarrow> \<not> set f \<subseteq> set s) \<Longrightarrow>
   concat (findall alts must_advance s) = []"
proof (induction alts must_advance s rule: findall.induct)
  case (1 alts must_advance s)
  show ?case
  proof (cases "find (\<lambda>f. startswith s f \<and> (if must_advance then f \<noteq> [] else True)) alts")
    case None
    show ?thesis
    proof (cases s)
      case Nil
      with None show ?thesis by (subst findall.simps) simp
    next
      case (Cons c cs)
      have "concat (findall alts False cs) = []"
      proof (rule "1.IH"(1) [OF None Cons])
        fix f assume "f \<in> set alts" "f \<noteq> []"
        with "1.prems" Cons show "\<not> set f \<subseteq> set cs" by auto
      qed
      with None Cons show ?thesis by (subst findall.simps) simp
    qed
  next
    case (Some f)
    then have f: "f \<in> set alts" "startswith s f"
      by (auto simp: find_Some_iff)
    have e: "f = []"
    proof (rule ccontr)
      assume "f \<noteq> []"
      with f "1.prems" startswith_set show False by blast
    qed
    have "concat (findall alts True s) = []"
      by (rule "1.IH"(2) [OF Some e]) (rule "1.prems")
    with Some e show ?thesis by (subst findall.simps) simp
  qed
qed
text \<open>
  C3, as the code has it. For a registry of literal keys that are covered,
  \<^verbatim>\<open>extract_custom_flags(remove_custom_flags(s))\<close> is the empty string for every
  \<open>s\<close>: after the removal no \<^verbatim>\<open>~\<close> and no character that is a key is left, so no
  key can match. For other registries the removal, one key after the other, can bring
  the two parts of a key together, and a flag is found again.
\<close>

theorem no_flag_after_removal:
  "literal_keys F \<and> covered_keys F \<longrightarrow>
   extract_custom_flags F (remove_custom_flags F s) = [] \<and>
   (\<forall>c. [c] \<in> set F \<or> c = CHR ''~'' \<longrightarrow> c \<notin> set (remove_custom_flags F s))"
proof (intro impI conjI allI)
  fix c assume "[c] \<in> set F \<or> c = CHR ''~''"
  then show "c \<notin> set (remove_custom_flags F s)"
    by (rule remove_custom_flags_no_single)
next
  assume h: "literal_keys F \<and> covered_keys F"
  have "concat (findall (known_flags F @ [''~'']) False (remove_custom_flags F s)) = []"
  proof (rule findall_nothing)
    fix f assume f: "f \<in> set (known_flags F @ [''~''])" "f \<noteq> []"
    then have "f \<in> set F \<or> f = ''~''" by (auto simp: known_flags_def)
    with h f(2) obtain c where c: "c \<in> set f" "c = CHR ''~'' \<or> [c] \<in> set F"
      by (auto simp: covered_keys_def list_all_iff list_ex_iff)
    then have "c \<notin> set (remove_custom_flags F s)"
      by (intro remove_custom_flags_no_single) blast
    with c(1) show "\<not> set f \<subseteq> set (remove_custom_flags F s)" by blast
  qed
  then show "extract_custom_flags F (remove_custom_flags F s) = []"
    by (simp add: extract_custom_flags_def)
qed

theorem no_flag_after_removal_witness:
  "literal_keys [''D'', ''P'', ''L'', ''Lx'', ''H'', ''C''] \<and>
   covered_keys [''D'', ''P'', ''L'', ''Lx'', ''H'', ''C''] \<and>
   extract_custom_flags [''D'', ''P'', ''L'', ''Lx'', ''H'', ''C'']
     (remove_custom_flags [''D'', ''P'', ''L'', ''Lx'', ''H'', ''C''] ''.2f~LPx'') = []"
proof -
  have a: "literal_keys [''D'', ''P'', ''L'', ''Lx'', ''H'', ''C'']"
    by (simp add: literal_keys_def re_special_def)
  have b: "covered_keys [''D'', ''P'', ''L'', ''Lx'', ''H'', ''C'']"
    by (simp add: covered_keys_def)
  from no_flag_after_removal [of "[''D'', ''P'', ''L'', ''Lx'', ''H'', ''C'']" "''.2f~LPx''"] a b
  show ?thesis by blast
qed

theorem rejoined_flag_counterexample:
  "remove_custom_flags [''ab''] ''a~b'' = ''ab'' \<and>
   extract_custom_flags [''ab''] (remove_custom_flags [''ab''] ''a~b'') = ''ab'' \<and>
   extract_custom_flags [''ab''] (remove_custom_flags [''ab''] ''a~b'') \<noteq> ''''"
  by code_simp

end
